theory Spec2Isabelle
  imports Main "HOL-Library.Sublist" "HOL-Library.Multiset"
begin

section \<open>NoteEase: the note repository of \<^verbatim>\<open>src/routes/index.tsx\<close>\<close>

text \<open>
  The page component keeps its notes in \<^verbatim>\<open>notes.list\<close>, filters them in the computed value
  \<^verbatim>\<open>filteredNotes\<close>, changes them in \<^verbatim>\<open>createNote\<close>, \<^verbatim>\<open>updateNote\<close> and
  \<^verbatim>\<open>deleteNote\<close>, and persists them through \<^verbatim>\<open>loadNotes\<close> and \<^verbatim>\<open>saveNotes\<close> in
  \<^verbatim>\<open>localStorage\<close>. This theory embeds these functions and the parts of the JavaScript
  library they call.

  Scope of the embedding.
  \<^item> A JavaScript string is a \<open>string\<close>: each \<open>char\<close> stands for one UTF-16 code unit in
    the range U+0000 to U+00FF. Code units above U+00FF are not represented.
  \<^item> A JavaScript number that holds an integer is an \<open>int\<close>. This is exact for the
    integers of magnitude below \<open>2^53\<close>, which covers every value of \<^verbatim>\<open>Date.now()\<close>.
    Fractions, \<^verbatim>\<open>NaN\<close> and the infinities are not represented.
  \<^item> \<^verbatim>\<open>Date.now()\<close> and \<^verbatim>\<open>Math.random()\<close> are inputs: the functions that read them take
    the value read as an argument.
  \<^item> \<^verbatim>\<open>localStorage\<close> is a finite map from keys to strings, passed in and returned; its
    quota is not modelled.
\<close>

subsection \<open>Strings\<close>

text \<open>
  \<^verbatim>\<open>String.prototype.trim\<close> removes white space and line terminators from both ends.
  Below U+0100 these are TAB, LF, VT, FF, CR, SPACE and NO-BREAK SPACE.
\<close>

definition isWhiteSpace :: "char \<Rightarrow> bool" where
  "isWhiteSpace c =
     (c = CHR 0x09 \<or> c = CHR 0x0A \<or> c = CHR 0x0B \<or> c = CHR 0x0C \<or>
      c = CHR 0x0D \<or> c = CHR 0x20 \<or> c = CHR 0xA0)"

definition trim :: "string \<Rightarrow> string" where
  "trim s = rev (dropWhile isWhiteSpace (rev (dropWhile isWhiteSpace s)))"

text \<open>
  \<^verbatim>\<open>String.prototype.toLowerCase\<close>: below U+0100 the letters with a lower-case mapping are
  A to Z and U+00C0 to U+00DE without the multiplication sign U+00D7; each maps to the
  code unit 32 above it.
\<close>

definition toLowerChar :: "char \<Rightarrow> char" where
  "toLowerChar c =
     (let n = (of_char c :: int) in
      if (65 \<le> n \<and> n \<le> 90) \<or> (192 \<le> n \<and> n \<le> 222 \<and> n \<noteq> 215)
      then char_of (n + 32) else c)"

definition toLowerCase :: "string \<Rightarrow> string" where
  "toLowerCase s = map toLowerChar s"

text \<open>\<^verbatim>\<open>s.includes(q)\<close>: \<open>q\<close> occurs in \<open>s\<close> at some position.\<close>

fun includes_str :: "string \<Rightarrow> string \<Rightarrow> bool" where
  "includes_str [] q = (q = [])"
| "includes_str (c # cs) q = (prefix q (c # cs) \<or> includes_str cs q)"

text \<open>
  \<^verbatim>\<open>s.split(sep)\<close> for a separator of one code unit: the pieces between the separators;
  the empty string gives one empty piece.
\<close>

fun split :: "char \<Rightarrow> string \<Rightarrow> string list" where
  "split sep [] = [[]]"
| "split sep (c # cs) =
     (if c = sep then [] # split sep cs
      else (c # hd (split sep cs)) # tl (split sep cs))"

text \<open>\<^verbatim>\<open>Array.prototype.join\<close>: the pieces with the separator between neighbours.\<close>

fun join :: "'a list \<Rightarrow> 'a list list \<Rightarrow> 'a list" where
  "join sep [] = []"
| "join sep [x] = x"
| "join sep (x # y # ys) = x @ sep @ join sep (y # ys)"

text \<open>
  \<^verbatim>\<open>Number.prototype.toString(radix)\<close> on an integer: the digits \<^verbatim>\<open>0-9a-z\<close>, most
  significant first, after a minus sign for a negative number.
\<close>

definition digitChar :: "int \<Rightarrow> char" where
  "digitChar d = (if d < 10 then char_of (48 + d) else char_of (87 + d))"

function digits :: "int \<Rightarrow> int \<Rightarrow> string" where
  "digits radix n =
     (if n < radix \<or> radix < 2 then [digitChar n]
      else digits radix (n div radix) @ [digitChar (n mod radix)])"
  by pat_completeness auto
termination
  by (relation "measure (\<lambda>(r, n). nat n)") (auto simp: int_div_less_self)

declare digits.simps [simp del]

definition toStringRadix :: "int \<Rightarrow> int \<Rightarrow> string" where
  "toStringRadix radix n =
     (if n < 0 then CHR ''-'' # digits radix (- n) else digits radix n)"

subsection \<open>Notes and the filtered view\<close>

text \<open>The type \<^verbatim>\<open>Note\<close> (lines 14 to 21); the field \<^verbatim>\<open>id\<close> is \<open>note_id\<close> here.\<close>

record Note =
  note_id :: string
  title :: string
  content :: string
  tags :: "string list"
  createdAt :: int
  updatedAt :: int

text \<open>
  \<^verbatim>\<open>Array.prototype.sort(comparefn)\<close>. ECMAScript 2019 makes the sort stable: for a
  consistent comparator the result is the one sorted arrangement that keeps elements the
  comparator calls equal in their order. Insertion from the right computes it.
\<close>

fun insertBy :: "('a \<Rightarrow> 'a \<Rightarrow> int) \<Rightarrow> 'a \<Rightarrow> 'a list \<Rightarrow> 'a list" where
  "insertBy cmp x [] = [x]"
| "insertBy cmp x (y # ys) =
     (if cmp x y \<le> 0 then x # y # ys else y # insertBy cmp x ys)"

definition array_sort :: "('a \<Rightarrow> 'a \<Rightarrow> int) \<Rightarrow> 'a list \<Rightarrow> 'a list" where
  "array_sort cmp xs = foldr (insertBy cmp) xs []"

text \<open>
  \<^verbatim>\<open>filteredNotes\<close> (lines 112 to 126), a function of the three signals it reads:
  \<^verbatim>\<open>notes.list\<close>, \<^verbatim>\<open>query.value\<close> and \<^verbatim>\<open>tagFilter.value\<close>. \<^verbatim>\<open>!q\<close> holds for the empty string
  only.
\<close>

definition filteredNotes :: "Note list \<Rightarrow> string \<Rightarrow> string \<Rightarrow> Note list" where
  "filteredNotes notes query tagFilter =
     (let q = toLowerCase (trim query);
          tf = toLowerCase (trim tagFilter)
      in array_sort (\<lambda>a b. updatedAt b - updatedAt a)
           (filter
              (\<lambda>n. let matchesQuery =
                          (q = [] \<or>
                           includes_str (toLowerCase (title n)) q \<or>
                           includes_str (toLowerCase (content n)) q \<or>
                           list_ex (\<lambda>t. includes_str (toLowerCase t) q) (tags n));
                        matchesTag =
                          (tf = [] \<or> list_ex (\<lambda>t. toLowerCase t = tf) (tags n))
                    in matchesQuery \<and> matchesTag)
              notes))"

text \<open>
  The two predicates of the filtering rule in the words of the specification, for the
  comparison with \<open>filteredNotes\<close>: \<open>sublist q s\<close> says that \<open>s = pre @ q @ suf\<close> for
  some \<open>pre\<close> and \<open>suf\<close>.
\<close>

definition spec_matchesText :: "string \<Rightarrow> Note \<Rightarrow> bool" where
  "spec_matchesText searchText n =
     (searchText = [] \<or>
      sublist searchText (toLowerCase (title n)) \<or>
      sublist searchText (toLowerCase (content n)) \<or>
      (\<exists>t \<in> set (tags n). sublist searchText (toLowerCase t)))"

definition spec_matchesTag :: "string \<Rightarrow> Note \<Rightarrow> bool" where
  "spec_matchesTag exactTag n =
     (exactTag = [] \<or> (\<exists>t \<in> set (tags n). toLowerCase t = exactTag))"

subsection \<open>JSON values and \<^verbatim>\<open>JSON.stringify\<close>\<close>

text \<open>
  The values \<^verbatim>\<open>JSON.parse\<close> returns. An object keeps its members in the order of the
  text; a property read takes the last member of that name.
\<close>

datatype json =
    JNull
  | JBool bool
  | JNumber int
  | JString string
  | JArray "json list"
  | JObject "(string \<times> json) list"

text \<open>
  \<^verbatim>\<open>QuoteJSONString\<close> of ECMA-262: the quotation mark and the reverse solidus are escaped,
  the control characters below U+0020 are written with their short escape or as
  \<^verbatim>\<open>\u00xx\<close>, every other code unit stands for itself.
\<close>

definition quoteChar :: "char \<Rightarrow> string" where
  "quoteChar c =
     (if c = CHR 0x22 then [CHR 0x5C, CHR 0x22]
      else if c = CHR 0x5C then [CHR 0x5C, CHR 0x5C]
      else if c = CHR 0x08 then [CHR 0x5C, CHR ''b'']
      else if c = CHR 0x09 then [CHR 0x5C, CHR ''t'']
      else if c = CHR 0x0A then [CHR 0x5C, CHR ''n'']
      else if c = CHR 0x0C then [CHR 0x5C, CHR ''f'']
      else if c = CHR 0x0D then [CHR 0x5C, CHR ''r'']
      else if (of_char c :: int) < 32
        then [CHR 0x5C, CHR ''u'', CHR ''0'', CHR ''0'',
              digitChar (of_char c div 16), digitChar (of_char c mod 16)]
      else [c])"

definition QuoteJSONString :: "string \<Rightarrow> string" where
  "QuoteJSONString s = CHR 0x22 # concat (map quoteChar s) @ [CHR 0x22]"

text \<open>\<^verbatim>\<open>JSON.stringify(value)\<close> with no replacer and no indentation.\<close>

fun JSON_stringify :: "json \<Rightarrow> string" where
  "JSON_stringify JNull = ''null''"
| "JSON_stringify (JBool b) = (if b then ''true'' else ''false'')"
| "JSON_stringify (JNumber n) = toStringRadix 10 n"
| "JSON_stringify (JString s) = QuoteJSONString s"
| "JSON_stringify (JArray xs) = ''['' @ join '','' (map JSON_stringify xs) @ '']''"
| "JSON_stringify (JObject ms) =
     ''{'' @ join '','' (map (\<lambda>(k, v). QuoteJSONString k @ '':'' @ JSON_stringify v) ms) @ ''}''"

subsection \<open>\<^verbatim>\<open>JSON.parse\<close>\<close>

text \<open>
  \<^verbatim>\<open>JSON.parse\<close> throws a \<^verbatim>\<open>SyntaxError\<close> on a text outside the JSON grammar. Two kinds
  of text are inside the grammar and outside this embedding: an escape \<^verbatim>\<open>\uXXXX\<close> above
  U+00FF, and a number with a fraction or an exponent. For these the embedding answers
  \<open>OutOfModel\<close>, about which no theorem below says anything.
\<close>

datatype parse_error = SyntaxError | OutOfModel

datatype token =
    TLBracket | TRBracket | TLBrace | TRBrace | TComma | TColon
  | TString string | TNumber int | TTrue | TFalse | TNull

definition isDigit :: "char \<Rightarrow> bool" where
  "isDigit c = (48 \<le> (of_char c :: int) \<and> (of_char c :: int) \<le> 57)"

definition isJSONWhiteSpace :: "char \<Rightarrow> bool" where
  "isJSONWhiteSpace c = (c = CHR 0x20 \<or> c = CHR 0x09 \<or> c = CHR 0x0A \<or> c = CHR 0x0D)"

definition hexValue :: "char \<Rightarrow> int option" where
  "hexValue c =
     (let n = (of_char c :: int) in
      if 48 \<le> n \<and> n \<le> 57 then Some (n - 48)
      else if 97 \<le> n \<and> n \<le> 102 then Some (n - 87)
      else if 65 \<le> n \<and> n \<le> 70 then Some (n - 55)
      else None)"

definition hex4 :: "char \<Rightarrow> char \<Rightarrow> char \<Rightarrow> char \<Rightarrow> int option" where
  "hex4 a b c d =
     (case (hexValue a, hexValue b, hexValue c, hexValue d) of
        (Some h3, Some h2, Some h1, Some h0) \<Rightarrow> Some (((h3 * 16 + h2) * 16 + h1) * 16 + h0)
      | _ \<Rightarrow> None)"

definition unescape :: "char \<Rightarrow> char option" where
  "unescape e =
     (if e = CHR 0x22 then Some (CHR 0x22)
      else if e = CHR 0x5C then Some (CHR 0x5C)
      else if e = CHR ''/'' then Some (CHR ''/'')
      else if e = CHR ''b'' then Some (CHR 0x08)
      else if e = CHR ''f'' then Some (CHR 0x0C)
      else if e = CHR ''n'' then Some (CHR 0x0A)
      else if e = CHR ''r'' then Some (CHR 0x0D)
      else if e = CHR ''t'' then Some (CHR 0x09)
      else None)"

definition consChar ::
  "char \<Rightarrow> parse_error + string \<times> string \<Rightarrow> parse_error + string \<times> string" where
  "consChar c res = (case res of Inl e \<Rightarrow> Inl e | Inr (s, rest) \<Rightarrow> Inr (c # s, rest))"

text \<open>
  The characters of a string literal after its opening quotation mark: the string they
  denote and the text after the closing quotation mark.
\<close>

fun scanString :: "string \<Rightarrow> parse_error + string \<times> string" where
  "scanString [] = Inl SyntaxError"
| "scanString (c # cs) =
     (if c = CHR 0x22 then Inr ([], cs)
      else if c = CHR 0x5C then
        (case cs of
           [] \<Rightarrow> Inl SyntaxError
         | e # r \<Rightarrow>
             if e = CHR ''u'' then
               (case r of
                  h3 # h2 # h1 # h0 # r' \<Rightarrow>
                    (case hex4 h3 h2 h1 h0 of
                       None \<Rightarrow> Inl SyntaxError
                     | Some n \<Rightarrow>
                         if n < 256 then consChar (char_of n) (scanString r')
                         else Inl OutOfModel)
                | _ \<Rightarrow> Inl SyntaxError)
             else
               (case unescape e of
                  None \<Rightarrow> Inl SyntaxError
                | Some x \<Rightarrow> consChar x (scanString r)))
      else if (of_char c :: int) < 32 then Inl SyntaxError
      else consChar c (scanString cs))"

definition digitsToInt :: "string \<Rightarrow> int" where
  "digitsToInt ds = foldl (\<lambda>a c. 10 * a + (of_char c - 48)) 0 ds"

text \<open>
  The digits of a number literal after its sign: one zero, or digits that do not start
  with a zero. The token holds the integer the digits denote; JavaScript rounds an
  integer of magnitude above \<open>2^53\<close> to a double, which is outside this embedding.
\<close>

definition scanDigits :: "int \<Rightarrow> string \<Rightarrow> parse_error + token \<times> string" where
  "scanDigits sign s =
     (let ds = takeWhile isDigit s; rest = dropWhile isDigit s in
      if ds = [] \<or> (hd ds = CHR ''0'' \<and> tl ds \<noteq> []) then Inl SyntaxError
      else if rest \<noteq> [] \<and> (hd rest = CHR ''.'' \<or> hd rest = CHR ''e'' \<or> hd rest = CHR ''E'')
        then Inl OutOfModel
      else Inr (TNumber (sign * digitsToInt ds), rest))"

definition consToken :: "token \<Rightarrow> parse_error + token list \<Rightarrow> parse_error + token list" where
  "consToken t res = (case res of Inl e \<Rightarrow> Inl e | Inr ts \<Rightarrow> Inr (t # ts))"

lemma scanString_length:
  "scanString s = Inr (t, r) \<Longrightarrow> length r < length s"
proof (induction s arbitrary: t r rule: scanString.induct)
  case 1
  then show ?case by simp
next
  case (2 c cs)
  show ?case
  proof (cases "c = CHR 0x22")
    case True
    with "2.prems" show ?thesis by simp
  next
    case notq: False
    show ?thesis
    proof (cases "c = CHR 0x5C")
      case False
      with notq "2.prems" "2.IH"(3) show ?thesis
        by (fastforce simp: consChar_def split: if_splits sum.splits)
    next
      case True
      then obtain e r0 where cs: "cs = e # r0"
        using "2.prems" by (cases cs) auto
      show ?thesis
      proof (cases "e = CHR ''u''")
        case False
        with notq True cs "2.prems" "2.IH"(2)[of e r0] show ?thesis
          by (fastforce simp: consChar_def split: if_splits sum.splits option.splits)
      next
        case eu: True
        with notq True cs "2.prems" "2.IH"(1)[of e r0] show ?thesis
          by (fastforce simp: consChar_def split: if_splits sum.splits option.splits list.splits)
      qed
    qed
  qed
qed

lemma scanDigits_length:
  "scanDigits sign s = Inr (t, r) \<Longrightarrow> length r \<le> length s"
  by (auto simp: scanDigits_def Let_def length_dropWhile_le split: if_splits)

function tokenize :: "string \<Rightarrow> parse_error + token list" where
  "tokenize [] = Inr []"
| "tokenize (c # cs) =
     (if isJSONWhiteSpace c then tokenize cs
      else if c = CHR ''['' then consToken TLBracket (tokenize cs)
      else if c = CHR '']'' then consToken TRBracket (tokenize cs)
      else if c = CHR ''{'' then consToken TLBrace (tokenize cs)
      else if c = CHR ''}'' then consToken TRBrace (tokenize cs)
      else if c = CHR '','' then consToken TComma (tokenize cs)
      else if c = CHR '':'' then consToken TColon (tokenize cs)
      else if c = CHR 0x22 then
        (case scanString cs of
           Inl e \<Rightarrow> Inl e
         | Inr (s, rest) \<Rightarrow> consToken (TString s) (tokenize rest))
      else if c = CHR ''-'' then
        (case scanDigits (- 1) cs of
           Inl e \<Rightarrow> Inl e
         | Inr (t, rest) \<Rightarrow> consToken t (tokenize rest))
      else if isDigit c then
        (case scanDigits 1 (c # cs) of
           Inl e \<Rightarrow> Inl e
         | Inr (t, rest) \<Rightarrow> consToken t (tokenize rest))
      else if prefix ''true'' (c # cs) then consToken TTrue (tokenize (drop 3 cs))
      else if prefix ''false'' (c # cs) then consToken TFalse (tokenize (drop 4 cs))
      else if prefix ''null'' (c # cs) then consToken TNull (tokenize (drop 3 cs))
      else Inl SyntaxError)"
  by pat_completeness auto
termination
proof (relation "measure length", goal_cases)
  case 1
  show ?case by simp
next
  case (9 c cs x s rest)
  then show ?case using scanString_length [of cs s rest] by simp
next
  case (10 c cs x t rest)
  then show ?case using scanDigits_length [of "- 1" cs t rest] by simp
next
  case (11 c cs x t rest)
  then have "rest = dropWhile isDigit cs"
    by (auto simp: scanDigits_def Let_def split: if_splits)
  then show ?case using length_dropWhile_le [of isDigit cs] by simp
qed simp_all

declare tokenize.simps(2) [simp del]

text \<open>
  The grammar of values over the tokens, as a machine with a stack of the arrays and
  objects that are open. An \<open>ArrayFrame\<close> holds the elements read so far, an
  \<open>ObjectFrame\<close> the members read so far and the key whose value is being read, both
  latest first.
\<close>

datatype frame =
    ArrayFrame "json list"
  | ObjectFrame "(string \<times> json) list" string

datatype pstate =
    ExpectValue "frame list"
  | ArrayStart "frame list"
  | ArrayNext "json list" "frame list"
  | ObjectStart "frame list"
  | ObjectKey "(string \<times> json) list" "frame list"
  | ObjectColon "(string \<times> json) list" string "frame list"
  | ObjectNext "(string \<times> json) list" "frame list"
  | Done json

fun reduce :: "json \<Rightarrow> frame list \<Rightarrow> pstate" where
  "reduce v [] = Done v"
| "reduce v (ArrayFrame es # st) = ArrayNext (v # es) st"
| "reduce v (ObjectFrame ms k # st) = ObjectNext ((k, v) # ms) st"

fun startValue :: "frame list \<Rightarrow> token \<Rightarrow> pstate option" where
  "startValue st TNull = Some (reduce JNull st)"
| "startValue st TTrue = Some (reduce (JBool True) st)"
| "startValue st TFalse = Some (reduce (JBool False) st)"
| "startValue st (TNumber n) = Some (reduce (JNumber n) st)"
| "startValue st (TString s) = Some (reduce (JString s) st)"
| "startValue st TLBracket = Some (ArrayStart st)"
| "startValue st TLBrace = Some (ObjectStart st)"
| "startValue st _ = None"

fun step :: "pstate \<Rightarrow> token \<Rightarrow> pstate option" where
  "step (ExpectValue st) t = startValue st t"
| "step (ArrayStart st) t =
     (if t = TRBracket then Some (reduce (JArray []) st)
      else startValue (ArrayFrame [] # st) t)"
| "step (ArrayNext es st) t =
     (if t = TComma then Some (ExpectValue (ArrayFrame es # st))
      else if t = TRBracket then Some (reduce (JArray (rev es)) st)
      else None)"
| "step (ObjectStart st) t =
     (case t of
        TRBrace \<Rightarrow> Some (reduce (JObject []) st)
      | TString k \<Rightarrow> Some (ObjectColon [] k st)
      | _ \<Rightarrow> None)"
| "step (ObjectKey ms st) t =
     (case t of TString k \<Rightarrow> Some (ObjectColon ms k st) | _ \<Rightarrow> None)"
| "step (ObjectColon ms k st) t =
     (if t = TColon then Some (ExpectValue (ObjectFrame ms k # st)) else None)"
| "step (ObjectNext ms st) t =
     (if t = TComma then Some (ObjectKey ms st)
      else if t = TRBrace then Some (reduce (JObject (rev ms)) st)
      else None)"
| "step (Done v) t = None"

fun run :: "pstate \<Rightarrow> token list \<Rightarrow> pstate option" where
  "run s [] = Some s"
| "run s (t # ts) = (case step s t of None \<Rightarrow> None | Some s' \<Rightarrow> run s' ts)"

definition JSON_parse :: "string \<Rightarrow> parse_error + json" where
  "JSON_parse text =
     (case tokenize text of
        Inl e \<Rightarrow> Inl e
      | Inr ts \<Rightarrow>
          (case run (ExpectValue []) ts of
             Some (Done v) \<Rightarrow> Inr v
           | _ \<Rightarrow> Inl SyntaxError))"

text \<open>
  The tokens of the text that \<open>JSON_stringify\<close> writes for a value; the round trip below
  goes through them.
\<close>

fun tokens :: "json \<Rightarrow> token list" where
  "tokens JNull = [TNull]"
| "tokens (JBool b) = [if b then TTrue else TFalse]"
| "tokens (JNumber n) = [TNumber n]"
| "tokens (JString s) = [TString s]"
| "tokens (JArray xs) = TLBracket # join [TComma] (map tokens xs) @ [TRBracket]"
| "tokens (JObject ms) =
     TLBrace # join [TComma] (map (\<lambda>(k, v). TString k # TColon # tokens v) ms) @ [TRBrace]"

text \<open>What follows a value inside a text that \<open>JSON_stringify\<close> writes.\<close>

definition endsValue :: "string \<Rightarrow> bool" where
  "endsValue rest =
     (rest = [] \<or> hd rest = CHR '','' \<or> hd rest = CHR '']'' \<or> hd rest = CHR ''}'')"

definition prependTokens ::
  "token list \<Rightarrow> parse_error + token list \<Rightarrow> parse_error + token list" where
  "prependTokens ts res = (case res of Inl e \<Rightarrow> Inl e | Inr ts' \<Rightarrow> Inr (ts @ ts'))"

subsection \<open>Persistence: \<^verbatim>\<open>localStorage\<close>, \<^verbatim>\<open>loadNotes\<close>, \<^verbatim>\<open>saveNotes\<close>, \<^verbatim>\<open>loadUser\<close>\<close>

type_synonym Storage = "string \<rightharpoonup> string"

definition getItem :: "Storage \<Rightarrow> string \<Rightarrow> string option" where
  "getItem ls key = ls key"

definition setItem :: "Storage \<Rightarrow> string \<Rightarrow> string \<Rightarrow> Storage" where
  "setItem ls key v = ls(key \<mapsto> v)"

definition LS_NOTES_KEY :: string where
  "LS_NOTES_KEY = ''notes_frontend__notes''"

definition LS_USER_KEY :: string where
  "LS_USER_KEY = ''notes_frontend__user''"

text \<open>
  A note as the object \<^verbatim>\<open>JSON.stringify\<close> sees: the properties in the order in which
  \<^verbatim>\<open>createNote\<close> writes them (the spread in \<^verbatim>\<open>updateNote\<close> keeps that order).
\<close>

definition json_of_Note :: "Note \<Rightarrow> json" where
  "json_of_Note n =
     JObject
       [(''id'', JString (note_id n)),
        (''title'', JString (title n)),
        (''content'', JString (content n)),
        (''tags'', JArray (map JString (tags n))),
        (''createdAt'', JNumber (createdAt n)),
        (''updatedAt'', JNumber (updatedAt n))]"

text \<open>
  The cast \<^verbatim>\<open>as Note[]\<close> checks nothing. \<open>Note_of_json\<close> reads the six properties of a
  parsed element the way the component reads them later (\<^verbatim>\<open>n.id\<close>, \<^verbatim>\<open>n.title\<close>, ...) and
  answers \<open>None\<close> when the element does not have the shape of a \<^verbatim>\<open>Note\<close>.
\<close>

definition property :: "json \<Rightarrow> string \<Rightarrow> json option" where
  "property v key = (case v of JObject ms \<Rightarrow> map_of (rev ms) key | _ \<Rightarrow> None)"

definition asString :: "json option \<Rightarrow> string option" where
  "asString v = (case v of Some (JString s) \<Rightarrow> Some s | _ \<Rightarrow> None)"

definition asNumber :: "json option \<Rightarrow> int option" where
  "asNumber v = (case v of Some (JNumber n) \<Rightarrow> Some n | _ \<Rightarrow> None)"

fun allSome :: "'a option list \<Rightarrow> 'a list option" where
  "allSome [] = Some []"
| "allSome (x # xs) =
     (case x of
        None \<Rightarrow> None
      | Some y \<Rightarrow> (case allSome xs of None \<Rightarrow> None | Some ys \<Rightarrow> Some (y # ys)))"

definition asStrings :: "json option \<Rightarrow> string list option" where
  "asStrings v =
     (case v of
        Some (JArray xs) \<Rightarrow> allSome (map (\<lambda>x. asString (Some x)) xs)
      | _ \<Rightarrow> None)"

definition Note_of_json :: "json \<Rightarrow> Note option" where
  "Note_of_json v =
     (case (asString (property v ''id''), asString (property v ''title''),
            asString (property v ''content''), asStrings (property v ''tags''),
            asNumber (property v ''createdAt''), asNumber (property v ''updatedAt'')) of
        (Some i, Some t, Some c, Some ts, Some ca, Some ua) \<Rightarrow>
          Some \<lparr>note_id = i, title = t, content = c, tags = ts, createdAt = ca, updatedAt = ua\<rparr>
      | _ \<Rightarrow> None)"

text \<open>
  \<^verbatim>\<open>loadNotes\<close> (lines 47 to 56). \<open>loadNotes_try\<close> is the body of the \<^verbatim>\<open>try\<close> block, with
  the exception of \<^verbatim>\<open>JSON.parse\<close> as \<open>Inl\<close>; \<open>loadNotes\<close> adds the \<^verbatim>\<open>catch\<close>. \<^verbatim>\<open>!raw\<close>
  holds for \<^verbatim>\<open>null\<close> and for the empty string. The result is the parsed array as it is.
\<close>

definition isArray :: "json \<Rightarrow> bool" where
  "isArray v = (case v of JArray xs \<Rightarrow> True | _ \<Rightarrow> False)"

definition loadNotes_try :: "Storage \<Rightarrow> parse_error + json list" where
  "loadNotes_try ls =
     (case getItem ls LS_NOTES_KEY of
        None \<Rightarrow> Inr []
      | Some raw \<Rightarrow>
          if raw = [] then Inr []
          else (case JSON_parse raw of
                  Inl e \<Rightarrow> Inl e
                | Inr parsed \<Rightarrow>
                    (case parsed of JArray xs \<Rightarrow> Inr xs | _ \<Rightarrow> Inr [])))"

definition loadNotes :: "Storage \<Rightarrow> json list" where
  "loadNotes ls = (case loadNotes_try ls of Inl e \<Rightarrow> [] | Inr xs \<Rightarrow> xs)"

text \<open>\<^verbatim>\<open>saveNotes\<close> (lines 58 to 60).\<close>

definition saveNotes :: "Note list \<Rightarrow> Storage \<Rightarrow> Storage" where
  "saveNotes notes ls =
     setItem ls LS_NOTES_KEY (JSON_stringify (JArray (map json_of_Note notes)))"

text \<open>
  \<^verbatim>\<open>loadUser\<close> (lines 62 to 70). Its result type is \<^verbatim>\<open>User | null\<close>; the cast \<^verbatim>\<open>as User\<close>
  checks nothing, so the result is whatever value the text parses to, and \<open>JNull\<close> is
  \<^verbatim>\<open>null\<close>.
\<close>

definition loadUser_try :: "Storage \<Rightarrow> parse_error + json" where
  "loadUser_try ls =
     (case getItem ls LS_USER_KEY of
        None \<Rightarrow> Inr JNull
      | Some raw \<Rightarrow> if raw = [] then Inr JNull else JSON_parse raw)"

definition loadUser :: "Storage \<Rightarrow> json" where
  "loadUser ls = (case loadUser_try ls of Inl e \<Rightarrow> JNull | Inr v \<Rightarrow> v)"

text \<open>
  The identity the component renders: it reads \<^verbatim>\<open>user.value.email[0]\<close> whenever
  \<^verbatim>\<open>user.value\<close> is truthy (line 249), which needs an object with a string \<^verbatim>\<open>email\<close>.
\<close>

definition isIdentity :: "json \<Rightarrow> bool" where
  "isIdentity v = (asString (property v ''email'') \<noteq> None)"

subsection \<open>The component's state and its three mutations\<close>

record Form =
  form_title :: string
  form_content :: string
  form_tags :: string

record AppState =
  notes_list :: "Note list"
  selectedNote :: "Note option"
  form :: Form
  showCreate :: bool
  showEdit :: bool
  showDeleteConfirm :: bool
  localStorage :: Storage

text \<open>
  \<^verbatim>\<open>uid\<close> (line 77). \<open>random36\<close> is the string \<^verbatim>\<open>Math.random().toString(36)\<close>, \<open>clock\<close> the
  value of \<^verbatim>\<open>Date.now()\<close>; \<^verbatim>\<open>slice(2)\<close> drops the first two code units.
\<close>

definition uid :: "string \<Rightarrow> int \<Rightarrow> string" where
  "uid random36 clock = drop 2 random36 @ toStringRadix 36 clock"

text \<open>
  \<^verbatim>\<open>createNote\<close> (lines 155 to 171). \<open>now\<close> is the value \<^verbatim>\<open>Date.now()\<close> returns on line
  156; \<open>random36\<close> and \<open>clock\<close> are what \<^verbatim>\<open>uid()\<close> reads afterwards. \<^verbatim>\<open>x || "Untitled"\<close>
  is \<^verbatim>\<open>"Untitled"\<close> for the empty string; \<^verbatim>\<open>filter(Boolean)\<close> drops the empty strings.
\<close>

definition createNote :: "int \<Rightarrow> string \<Rightarrow> int \<Rightarrow> AppState \<Rightarrow> AppState" where
  "createNote now random36 clock st =
     (let newNote =
            \<lparr>note_id = uid random36 clock,
             title = (if trim (form_title (form st)) = [] then ''Untitled''
                      else trim (form_title (form st))),
             content = trim (form_content (form st)),
             tags = filter (\<lambda>t. t \<noteq> []) (map trim (split CHR '','' (form_tags (form st)))),
             createdAt = now,
             updatedAt = now\<rparr>;
          list' = newNote # notes_list st
      in st\<lparr>notes_list := list',
            localStorage := saveNotes list' (localStorage st),
            showCreate := False\<rparr>)"

text \<open>\<^verbatim>\<open>updateNote\<close> (lines 173 to 194).\<close>

definition updateNote :: "int \<Rightarrow> AppState \<Rightarrow> AppState" where
  "updateNote now st =
     (case selectedNote st of
        None \<Rightarrow> st
      | Some sel \<Rightarrow>
          (let updated =
                 map (\<lambda>n. if note_id n = note_id sel
                           then n\<lparr>title := (if trim (form_title (form st)) = [] then ''Untitled''
                                               else trim (form_title (form st))),
                                   content := trim (form_content (form st)),
                                   tags := filter (\<lambda>t. t \<noteq> [])
                                             (map trim (split CHR '','' (form_tags (form st)))),
                                   updatedAt := now\<rparr>
                           else n)
                     (notes_list st)
           in st\<lparr>notes_list := updated,
                 localStorage := saveNotes updated (localStorage st),
                 selectedNote := None,
                 showEdit := False\<rparr>))"

text \<open>\<^verbatim>\<open>deleteNote\<close> (lines 201 to 207).\<close>

definition deleteNote :: "AppState \<Rightarrow> AppState" where
  "deleteNote st =
     (case selectedNote st of
        None \<Rightarrow> st
      | Some sel \<Rightarrow>
          (let list' = filter (\<lambda>n. note_id n \<noteq> note_id sel) (notes_list st)
           in st\<lparr>notes_list := list',
                 localStorage := saveNotes list' (localStorage st),
                 selectedNote := None,
                 showDeleteConfirm := False\<rparr>))"

subsection \<open>Example data\<close>

text \<open>
  The component's state before anything is loaded (lines 84 to 102): no notes, nothing
  selected, an empty form, every dialog closed; over a given \<^verbatim>\<open>localStorage\<close>.
\<close>

definition initialState :: "Storage \<Rightarrow> AppState" where
  "initialState ls =
     \<lparr>notes_list = [], selectedNote = None,
      form = \<lparr>form_title = [], form_content = [], form_tags = []\<rparr>,
      showCreate = False, showEdit = False, showDeleteConfirm = False,
      localStorage = ls\<rparr>"

text \<open>The two notes of the specification's query examples, with timestamps added.\<close>

definition tokyo :: Note where
  "tokyo =
     \<lparr>note_id = ''a1'', title = ''Trip to Tokyo'', content = ''Pack bags'',
      tags = [''travel'', ''japan''], createdAt = 100, updatedAt = 100\<rparr>"

definition budget :: Note where
  "budget =
     \<lparr>note_id = ''b2'', title = ''Budget'', content = [],
      tags = [''work''], createdAt = 200, updatedAt = 200\<rparr>"

text \<open>A state in which the note \<open>tokyo\<close> is open in the edit form with new contents.\<close>

definition editingTokyo :: "Note list \<Rightarrow> AppState" where
  "editingTokyo notes =
     (initialState Map.empty)
       \<lparr>notes_list := notes, selectedNote := Some tokyo,
        form := \<lparr>form_title = ''  Kyoto  '', form_content = '' Book hotel'',
                  form_tags = ''travel, ,kansai ,''\<rparr>\<rparr>"

section \<open>Properties\<close>

subsection \<open>The string functions\<close>

text \<open>
  \<open>split\<close> is the split at the separator: joining the pieces with the separator gives
  the string back, and no piece contains the separator. \<open>trim\<close> leaves no white space at
  either end, so trimming twice is trimming once.
\<close>

lemma join_Cons: "join sep (x # xs) = x @ concat (map (\<lambda>y. sep @ y) xs)"
  by (induction xs arbitrary: x) auto

lemma split_nonempty: "split sep s \<noteq> []"
  by (induction s) auto

lemma join_split: "join [sep] (split sep s) = s"
proof (induction s)
  case Nil
  then show ?case by simp
next
  case (Cons c cs)
  obtain p ps where sp: "split sep cs = p # ps"
    using split_nonempty [of sep cs] by (cases "split sep cs") auto
  with Cons show ?case by (cases ps) (auto simp: join_Cons)
qed

lemma split_pieces: "p \<in> set (split sep s) \<Longrightarrow> sep \<notin> set p"
proof (induction s arbitrary: p)
  case Nil
  then show ?case by simp
next
  case (Cons c cs)
  obtain q qs where sp: "split sep cs = q # qs"
    using split_nonempty [of sep cs] by (cases "split sep cs") auto
  with Cons show ?case by (auto split: if_splits)
qed

lemma dropWhile_id: "xs = [] \<or> \<not> P (hd xs) \<Longrightarrow> dropWhile P xs = xs"
  by (cases xs) auto

lemma dropWhile_hd: "dropWhile P xs = [] \<or> \<not> P (hd (dropWhile P xs))"
  using hd_dropWhile [of P xs] by blast

lemma hd_rev_dropWhile_rev:
  assumes "dropWhile P (rev u) \<noteq> []"
  shows "hd (rev (dropWhile P (rev u))) = hd u"
proof -
  define v where "v = dropWhile P (rev u)"
  define w where "w = takeWhile P (rev u)"
  have "rev u = w @ v" by (simp add: v_def w_def)
  then have "u = rev v @ rev w" by (metis rev_append rev_rev_ident)
  moreover have "rev v \<noteq> []" using assms by (simp add: v_def del: dropWhile_eq_Nil_conv)
  ultimately have "hd u = hd (rev v)" by (simp add: hd_append)
  then show ?thesis by (simp add: v_def)
qed

lemma trim_ends:
  "trim s = [] \<or> (\<not> isWhiteSpace (hd (trim s)) \<and> \<not> isWhiteSpace (last (trim s)))"
proof (cases "trim s = []")
  case True
  then show ?thesis by simp
next
  case False
  define u where "u = dropWhile isWhiteSpace s"
  define v where "v = dropWhile isWhiteSpace (rev u)"
  have t: "trim s = rev v" by (simp add: trim_def u_def v_def)
  with False have v: "v \<noteq> []" by simp
  then have l: "\<not> isWhiteSpace (hd v)"
    unfolding v_def using dropWhile_hd [of isWhiteSpace "rev u"] by blast
  have "u \<noteq> []" using v by (auto simp: v_def)
  then have hu: "\<not> isWhiteSpace (hd u)"
    unfolding u_def using dropWhile_hd [of isWhiteSpace s] by blast
  have "hd (rev v) = hd u"
    unfolding v_def using v by (intro hd_rev_dropWhile_rev) (simp add: v_def)
  with hu l v show ?thesis by (simp add: t last_rev)
qed

lemma trim_idem: "trim (trim s) = trim s"
proof (cases "trim s = []")
  case True
  have "trim [] = []" by (simp add: trim_def)
  with True show ?thesis by simp
next
  case False
  with trim_ends [of s] have e: "\<not> isWhiteSpace (hd (trim s))" "\<not> isWhiteSpace (last (trim s))"
    by auto
  have "dropWhile isWhiteSpace (trim s) = trim s"
    using e(1) by (intro dropWhile_id) simp
  moreover have "dropWhile isWhiteSpace (rev (trim s)) = rev (trim s)"
    using e(2) False by (intro dropWhile_id) (simp add: hd_rev)
  ultimately show ?thesis by (simp add: trim_def)
qed

lemma trim_Untitled: "trim ''Untitled'' = ''Untitled''"
  by code_simp

subsection \<open>The filtered view\<close>

lemma includes_str_sublist: "includes_str s q \<longleftrightarrow> sublist q s"
  by (induction s) (auto simp: sublist_Cons_right)

lemma set_insertBy: "set (insertBy cmp x ys) = insert x (set ys)"
  by (induction ys) auto

lemma mset_insertBy: "mset (insertBy cmp x ys) = add_mset x (mset ys)"
  by (induction ys) auto

lemma mset_array_sort: "mset (array_sort cmp xs) = mset xs"
  by (induction xs) (auto simp: array_sort_def mset_insertBy)

lemma sorted_insertBy_updatedAt:
  "sorted_wrt (\<lambda>a b. updatedAt b \<le> updatedAt a) ys \<Longrightarrow>
   sorted_wrt (\<lambda>a b. updatedAt b \<le> updatedAt a)
     (insertBy (\<lambda>a b. updatedAt b - updatedAt a) x ys)"
  by (induction ys) (auto simp: set_insertBy)

lemma sorted_array_sort_updatedAt:
  "sorted_wrt (\<lambda>a b. updatedAt b \<le> updatedAt a)
     (array_sort (\<lambda>a b. updatedAt b - updatedAt a) xs)"
  by (induction xs) (auto simp: array_sort_def sorted_insertBy_updatedAt)

text \<open>
  Claim C1. For every collection, search text and tag filter, \<open>filteredNotes\<close> returns
  exactly the notes of the collection, each as often as it occurs there, that satisfy the
  text predicate and the tag predicate of the specification for the trimmed, lower-cased
  inputs; and the result is ordered by \<open>updatedAt\<close>, latest first.
\<close>

theorem filteredNotes_filters_and_sorts:
  "mset (filteredNotes notes query tagFilter) =
     filter_mset (\<lambda>n. spec_matchesText (toLowerCase (trim query)) n \<and>
                       spec_matchesTag (toLowerCase (trim tagFilter)) n) (mset notes)
   \<and> sorted_wrt (\<lambda>a b. updatedAt b \<le> updatedAt a) (filteredNotes notes query tagFilter)"
  by (simp add: filteredNotes_def Let_def mset_array_sort sorted_array_sort_updatedAt
      spec_matchesText_def spec_matchesTag_def includes_str_sublist list_ex_iff)

text \<open>
  Notes with the same \<open>updatedAt\<close> keep the order they have in the collection: the tie
  order the specification leaves open is the insertion order.
\<close>

lemma filter_insertBy_key:
  "filter (\<lambda>n. updatedAt n = k) (insertBy (\<lambda>a b. updatedAt b - updatedAt a) x ys) =
   filter (\<lambda>n. updatedAt n = k) (x # ys)"
  by (induction ys) auto

lemma array_sort_stable:
  "filter (\<lambda>n. updatedAt n = k) (array_sort (\<lambda>a b. updatedAt b - updatedAt a) xs) =
   filter (\<lambda>n. updatedAt n = k) xs"
  by (induction xs) (auto simp: array_sort_def filter_insertBy_key)

text \<open>The query examples of the specification, and three more on trimming and case.\<close>

lemma filteredNotes_examples:
  "filteredNotes [tokyo, budget] ''tokyo'' [] = [tokyo]"
  "filteredNotes [tokyo, budget] [] ''work'' = [budget]"
  "filteredNotes [tokyo, budget] ''budget'' ''travel'' = []"
  "filteredNotes [tokyo, budget] [] [] = [budget, tokyo]"
  "filteredNotes [tokyo, budget] ''  TOKYO '' '' Travel'' = [tokyo]"
  "filteredNotes [tokyo, budget] ''JAP'' [] = [tokyo]"
  "filteredNotes [tokyo, budget] [] ''trav'' = []"
  by code_simp+

subsection \<open>The round trip through \<open>JSON_stringify\<close> and \<open>JSON_parse\<close>\<close>

text \<open>The machine reads the tokens of a value and reduces to that value.\<close>

lemma run_append:
  "run s (ts1 @ ts2) = (case run s ts1 of None \<Rightarrow> None | Some s' \<Rightarrow> run s' ts2)"
  by (induction ts1 arbitrary: s) (auto split: option.splits)

lemma tokens_nonempty: "tokens v \<noteq> []"
  by (cases v) auto

lemma hd_tokens_not_close: "hd (tokens v) \<noteq> TRBracket"
  by (cases v) auto

lemma startValue_ArrayStart:
  "t \<noteq> TRBracket \<Longrightarrow> step (ArrayStart st) t = step (ExpectValue (ArrayFrame [] # st)) t"
  by simp

lemma run_ArrayStart:
  "ts \<noteq> [] \<Longrightarrow> hd ts \<noteq> TRBracket \<Longrightarrow>
   run (ArrayStart st) ts = run (ExpectValue (ArrayFrame [] # st)) ts"
  by (cases ts) auto

lemma run_elements:
  assumes "\<And>x st. x \<in> set xs \<Longrightarrow> run (ExpectValue st) (tokens x) = Some (reduce x st)"
  shows "run (ArrayNext es st) (concat (map (\<lambda>x. TComma # tokens x) xs) @ [TRBracket])
         = Some (reduce (JArray (rev es @ xs)) st)"
  using assms
proof (induction xs arbitrary: es)
  case Nil
  then show ?case by simp
next
  case (Cons x xs)
  have "run (ArrayNext es st) (concat (map (\<lambda>x. TComma # tokens x) (x # xs)) @ [TRBracket])
      = run (ExpectValue (ArrayFrame es # st)) (tokens x @ (concat (map (\<lambda>x. TComma # tokens x) xs) @ [TRBracket]))"
    by simp
  also have "\<dots> = run (ArrayNext (x # es) st) (concat (map (\<lambda>x. TComma # tokens x) xs) @ [TRBracket])"
    by (simp add: run_append Cons.prems)
  also have "\<dots> = Some (reduce (JArray (rev (x # es) @ xs)) st)"
    using Cons.IH [of "x # es"] Cons.prems by simp
  finally show ?case by simp
qed

lemma run_members:
  assumes "\<And>k v st. (k, v) \<in> set ms \<Longrightarrow> run (ExpectValue st) (tokens v) = Some (reduce v st)"
  shows "run (ObjectNext acc st)
           (concat (map (\<lambda>(k, v). TComma # TString k # TColon # tokens v) ms) @ [TRBrace])
         = Some (reduce (JObject (rev acc @ ms)) st)"
  using assms
proof (induction ms arbitrary: acc)
  case Nil
  then show ?case by simp
next
  case (Cons m ms)
  obtain k v where m: "m = (k, v)" by (cases m)
  have v: "run (ExpectValue st') (tokens v) = Some (reduce v st')" for st'
    using Cons.prems [of k v] m by simp
  have "run (ObjectNext acc st)
          (concat (map (\<lambda>(k, v). TComma # TString k # TColon # tokens v) (m # ms)) @ [TRBrace])
      = run (ExpectValue (ObjectFrame acc k # st))
          (tokens v @ (concat (map (\<lambda>(k, v). TComma # TString k # TColon # tokens v) ms) @ [TRBrace]))"
    by (simp add: m)
  also have "\<dots> = run (ObjectNext ((k, v) # acc) st)
          (concat (map (\<lambda>(k, v). TComma # TString k # TColon # tokens v) ms) @ [TRBrace])"
    by (simp add: run_append v)
  also have "\<dots> = Some (reduce (JObject (rev ((k, v) # acc) @ ms)) st)"
  proof (rule Cons.IH)
    fix k' v' st'
    assume "(k', v') \<in> set ms"
    then show "run (ExpectValue st') (tokens v') = Some (reduce v' st')"
      using Cons.prems [of k' v'] by simp
  qed
  finally show ?case by (simp add: m)
qed

lemma run_tokens: "run (ExpectValue st) (tokens v) = Some (reduce v st)"
proof (induction v arbitrary: st)
  case (JArray xs)
  show ?case
  proof (cases xs)
    case Nil
    then show ?thesis by simp
  next
    case (Cons x xs')
    have ih: "run (ExpectValue st') (tokens y) = Some (reduce y st')" if "y \<in> set xs" for y st'
      using JArray.IH that by simp
    have "run (ExpectValue st) (tokens (JArray xs))
        = run (ArrayStart st) (tokens x @ (concat (map (\<lambda>x. TComma # tokens x) xs') @ [TRBracket]))"
      by (simp add: Cons join_Cons comp_def)
    also have "\<dots> = run (ExpectValue (ArrayFrame [] # st))
                        (tokens x @ (concat (map (\<lambda>x. TComma # tokens x) xs') @ [TRBracket]))"
      by (rule run_ArrayStart) (use tokens_nonempty hd_tokens_not_close in \<open>auto simp: hd_append\<close>)
    also have "\<dots> = run (ArrayNext [x] st) (concat (map (\<lambda>x. TComma # tokens x) xs') @ [TRBracket])"
      by (simp add: run_append ih Cons)
    also have "\<dots> = Some (reduce (JArray (rev [x] @ xs')) st)"
      by (rule run_elements) (simp add: ih Cons)
    finally show ?thesis by (simp add: Cons)
  qed
next
  case (JObject ms)
  show ?case
  proof (cases ms)
    case Nil
    then show ?thesis by simp
  next
    case (Cons m ms')
    obtain k v where m: "m = (k, v)" by (cases m)
    have ih: "run (ExpectValue st') (tokens w) = Some (reduce w st')" if "(j, w) \<in> set ms" for j w st'
      using JObject.IH [of "(j, w)" w] that by simp
    have "run (ExpectValue st) (tokens (JObject ms))
        = run (ExpectValue (ObjectFrame [] k # st))
            (tokens v @ (concat (map (\<lambda>(k, v). TComma # TString k # TColon # tokens v) ms') @ [TRBrace]))"
      by (simp add: Cons m join_Cons comp_def case_prod_unfold)
    also have "\<dots> = run (ObjectNext [(k, v)] st)
            (concat (map (\<lambda>(k, v). TComma # TString k # TColon # tokens v) ms') @ [TRBrace])"
      by (simp add: run_append ih [of k v] Cons m)
    also have "\<dots> = Some (reduce (JObject (rev [(k, v)] @ ms')) st)"
    proof (rule run_members)
      fix k' v' st'
      assume "(k', v') \<in> set ms'"
      then show "run (ExpectValue st') (tokens v') = Some (reduce v' st')"
        using ih [of k' v'] Cons by simp
    qed
    finally show ?thesis by (simp add: Cons m)
  qed
qed auto

text \<open>The digits of a number scan back to the number.\<close>

lemma of_char_digitChar:
  "0 \<le> d \<Longrightarrow> d < 36 \<Longrightarrow>
   (of_char (digitChar d) :: int) = (if d < 10 then 48 + d else 87 + d)"
  by (simp add: digitChar_def)

lemma isDigit_digitChar: "0 \<le> d \<Longrightarrow> d < 10 \<Longrightarrow> isDigit (digitChar d)"
  by (simp add: isDigit_def of_char_digitChar)

lemma digits_nonempty: "digits radix n \<noteq> []"
  by (subst digits.simps) simp

lemma digits10_all_digits: "0 \<le> n \<Longrightarrow> c \<in> set (digits 10 n) \<Longrightarrow> isDigit c"
proof (induction "10 :: int" n arbitrary: c rule: digits.induct)
  case (1 n)
  show ?case
  proof (cases "n < 10")
    case True
    with "1.prems" show ?thesis
      by (subst (asm) digits.simps) (simp add: isDigit_digitChar)
  next
    case False
    with "1.prems" have "c \<in> set (digits 10 (n div 10)) \<or> c = digitChar (n mod 10)"
      by (subst (asm) digits.simps) auto
    then show ?thesis
    proof
      assume "c \<in> set (digits 10 (n div 10))"
      with "1.hyps" [of c] False "1.prems"(1) show ?thesis by simp
    next
      assume "c = digitChar (n mod 10)"
      then show ?thesis by (simp add: isDigit_digitChar)
    qed
  qed
qed

lemma digitsToInt_snoc: "digitsToInt (ds @ [c]) = 10 * digitsToInt ds + (of_char c - 48)"
  by (simp add: digitsToInt_def)

lemma digitsToInt_digits: "0 \<le> n \<Longrightarrow> digitsToInt (digits 10 n) = n"
proof (induction "10 :: int" n rule: digits.induct)
  case (1 n)
  show ?case
  proof (cases "n < 10")
    case True
    with "1.prems" show ?thesis
      by (subst digits.simps) (simp add: digitsToInt_def of_char_digitChar)
  next
    case False
    with "1.hyps" "1.prems" have "digitsToInt (digits 10 (n div 10)) = n div 10" by simp
    with False show ?thesis
      by (subst digits.simps) (simp add: digitsToInt_snoc of_char_digitChar)
  qed
qed

lemma digitChar_zero:
  assumes "0 \<le> d" "d < 10" "digitChar d = CHR ''0''"
  shows "d = 0"
proof -
  have "(of_char (digitChar d) :: int) = of_char CHR ''0''"
    using assms(3) by simp
  with assms(1,2) show ?thesis by (simp add: of_char_digitChar)
qed

lemma hd_digits_zero: "0 \<le> n \<Longrightarrow> hd (digits 10 n) = CHR ''0'' \<Longrightarrow> n = 0"
proof (induction "10 :: int" n rule: digits.induct)
  case (1 n)
  show ?case
  proof (cases "n < 10")
    case True
    then have "digits 10 n = [digitChar n]"
      by (subst digits.simps) simp
    with "1.prems" True show ?thesis
      by (simp add: digitChar_zero)
  next
    case False
    then have "digits 10 n = digits 10 (n div 10) @ [digitChar (n mod 10)]"
      by (subst digits.simps) simp
    with "1.prems" have "hd (digits 10 (n div 10)) = CHR ''0''"
      by (simp add: hd_append digits_nonempty)
    with "1.hyps" False "1.prems"(1) have "n div 10 = 0" by simp
    with False "1.prems"(1) show ?thesis by simp
  qed
qed

lemma digits_zero: "digits 10 0 = ''0''"
  by code_simp

lemma no_leading_zero: "0 \<le> n \<Longrightarrow> hd (digits 10 n) = CHR ''0'' \<Longrightarrow> tl (digits 10 n) = []"
  using hd_digits_zero [of n] by (auto simp: digits_zero)

lemma endsValue_not_digit: "endsValue rest \<Longrightarrow> takeWhile isDigit rest = []"
  by (cases rest) (auto simp: endsValue_def isDigit_def)

lemma endsValue_not_fraction:
  "endsValue rest \<Longrightarrow>
   \<not> (rest \<noteq> [] \<and> (hd rest = CHR ''.'' \<or> hd rest = CHR ''e'' \<or> hd rest = CHR ''E''))"
  by (auto simp: endsValue_def)

lemma scanDigits_digits:
  assumes "0 \<le> n" "endsValue rest"
  shows "scanDigits sign (digits 10 n @ rest) = Inr (TNumber (sign * n), rest)"
proof -
  have all: "\<And>c. c \<in> set (digits 10 n) \<Longrightarrow> isDigit c"
    using digits10_all_digits assms(1) by blast
  have tw: "takeWhile isDigit (digits 10 n @ rest) = digits 10 n"
    using all by (simp add: takeWhile_append2 endsValue_not_digit assms(2))
  have dw: "dropWhile isDigit (digits 10 n @ rest) = rest"
  proof -
    have "dropWhile isDigit (digits 10 n @ rest) = dropWhile isDigit rest"
      using all by (simp add: dropWhile_append2)
    also have "\<dots> = rest"
      using endsValue_not_digit [OF assms(2)] by (cases rest) (auto split: if_splits)
    finally show ?thesis .
  qed
  show ?thesis
    unfolding scanDigits_def Let_def tw dw
    using no_leading_zero [OF assms(1)] endsValue_not_fraction [OF assms(2)]
    by (auto simp: digits_nonempty digitsToInt_digits assms(1))
qed


text \<open>A quoted string scans back to the string.\<close>

lemma of_char_int_range: "0 \<le> (of_char c :: int) \<and> (of_char c :: int) < 256"
proof -
  have "(of_char c :: int) mod 256 = of_char c" by (rule of_char_mod_256)
  then show ?thesis
    by (metis pos_mod_bound pos_mod_sign zero_less_numeral)
qed

lemma hexValue_digitChar: "0 \<le> d \<Longrightarrow> d < 16 \<Longrightarrow> hexValue (digitChar d) = Some d"
  by (simp add: hexValue_def Let_def of_char_digitChar)

lemma hexValue_zero: "hexValue CHR ''0'' = Some 0"
  by (simp add: hexValue_def)

lemma hex4_control:
  assumes "(of_char c :: int) < 32"
  shows "hex4 CHR ''0'' CHR ''0'' (digitChar (of_char c div 16)) (digitChar (of_char c mod 16))
         = Some (of_char c)"
proof -
  have r: "0 \<le> (of_char c :: int)" using of_char_int_range by blast
  have "hexValue (digitChar ((of_char c :: int) div 16)) = Some (of_char c div 16)"
    using r assms by (intro hexValue_digitChar) auto
  moreover have "hexValue (digitChar ((of_char c :: int) mod 16)) = Some (of_char c mod 16)"
    by (intro hexValue_digitChar) auto
  ultimately show ?thesis
    by (simp add: hex4_def hexValue_zero)
qed

lemma scanString_quoteChar: "scanString (quoteChar c @ rest) = consChar c (scanString rest)"
proof -
  consider (short) "c = CHR 0x22 \<or> c = CHR 0x5C \<or> c = CHR 0x08 \<or> c = CHR 0x09 \<or>
                    c = CHR 0x0A \<or> c = CHR 0x0C \<or> c = CHR 0x0D"
    | (control) "c \<noteq> CHR 0x22" "c \<noteq> CHR 0x5C" "c \<noteq> CHR 0x08" "c \<noteq> CHR 0x09"
                "c \<noteq> CHR 0x0A" "c \<noteq> CHR 0x0C" "c \<noteq> CHR 0x0D" "(of_char c :: int) < 32"
    | (plain) "c \<noteq> CHR 0x22" "c \<noteq> CHR 0x5C" "c \<noteq> CHR 0x08" "c \<noteq> CHR 0x09"
                "c \<noteq> CHR 0x0A" "c \<noteq> CHR 0x0C" "c \<noteq> CHR 0x0D" "\<not> (of_char c :: int) < 32"
    by blast
  then show ?thesis
  proof cases
    case short
    then show ?thesis
      by (elim disjE) (simp_all add: quoteChar_def unescape_def)
  next
    case control
    then show ?thesis
      using of_char_int_range [of c]
      by (simp add: quoteChar_def hex4_control)
  next
    case plain
    then show ?thesis
      by (simp add: quoteChar_def)
  qed
qed

lemma scanString_quoted:
  "scanString (concat (map quoteChar s) @ CHR 0x22 # rest) = Inr (s, rest)"
  by (induction s) (simp_all add: scanString_quoteChar consChar_def)

text \<open>The tokenizer on the text of one token.\<close>

lemma consToken_prepend: "consToken t res = prependTokens [t] res"
  by (simp add: consToken_def prependTokens_def split: sum.splits)

lemma prependTokens_prepend:
  "prependTokens ts (prependTokens ts' res) = prependTokens (ts @ ts') res"
  by (simp add: prependTokens_def split: sum.splits)

lemma prependTokens_Nil: "prependTokens [] res = res"
  by (simp add: prependTokens_def split: sum.splits)

lemma tokenize_punctuation:
  "tokenize (CHR ''['' # cs) = prependTokens [TLBracket] (tokenize cs)"
  "tokenize (CHR '']'' # cs) = prependTokens [TRBracket] (tokenize cs)"
  "tokenize (CHR ''{'' # cs) = prependTokens [TLBrace] (tokenize cs)"
  "tokenize (CHR ''}'' # cs) = prependTokens [TRBrace] (tokenize cs)"
  "tokenize (CHR '','' # cs) = prependTokens [TComma] (tokenize cs)"
  "tokenize (CHR '':'' # cs) = prependTokens [TColon] (tokenize cs)"
  by (simp_all add: tokenize.simps isJSONWhiteSpace_def consToken_prepend)

lemma tokenize_keywords:
  "tokenize (''null'' @ rest) = prependTokens [TNull] (tokenize rest)"
  "tokenize (''true'' @ rest) = prependTokens [TTrue] (tokenize rest)"
  "tokenize (''false'' @ rest) = prependTokens [TFalse] (tokenize rest)"
  by (simp_all add: tokenize.simps isJSONWhiteSpace_def isDigit_def consToken_prepend)

lemma tokenize_string:
  "tokenize (QuoteJSONString s @ rest) = prependTokens [TString s] (tokenize rest)"
  by (simp add: QuoteJSONString_def tokenize.simps isJSONWhiteSpace_def scanString_quoted
      consToken_prepend)

lemma isDigit_not_special:
  "isDigit c \<Longrightarrow> \<not> isJSONWhiteSpace c \<and> c \<noteq> CHR ''['' \<and> c \<noteq> CHR '']'' \<and> c \<noteq> CHR ''{'' \<and>
     c \<noteq> CHR ''}'' \<and> c \<noteq> CHR '','' \<and> c \<noteq> CHR '':'' \<and> c \<noteq> CHR 0x22 \<and> c \<noteq> CHR ''-''"
  by (auto simp: isDigit_def isJSONWhiteSpace_def)

lemma tokenize_number:
  assumes "endsValue rest"
  shows "tokenize (toStringRadix 10 n @ rest) = prependTokens [TNumber n] (tokenize rest)"
proof (cases "n < 0")
  case True
  then have "scanDigits (- 1) (digits 10 (- n) @ rest) = Inr (TNumber (- 1 * - n), rest)"
    using assms by (intro scanDigits_digits) auto
  with True show ?thesis
    by (simp add: toStringRadix_def tokenize.simps isJSONWhiteSpace_def consToken_prepend)
next
  case False
  then have sd: "scanDigits 1 (digits 10 n @ rest) = Inr (TNumber (1 * n), rest)"
    using assms by (intro scanDigits_digits) auto
  obtain d ds where ds: "digits 10 n = d # ds"
    using digits_nonempty [of 10 n] by (cases "digits 10 n") auto
  have "isDigit d"
    using digits10_all_digits [of n d] False ds by simp
  with sd False ds show ?thesis
    using isDigit_not_special [of d]
    by (simp add: toStringRadix_def tokenize.simps consToken_prepend)
qed

text \<open>The tokenizer on the text of a value, and the round trip.\<close>

lemma endsValue_simps:
  "endsValue []" "endsValue (CHR '','' # r)" "endsValue (CHR '']'' # r)" "endsValue (CHR ''}'' # r)"
  by (simp_all add: endsValue_def)

lemma tokenize_elements:
  assumes "\<And>x rest. x \<in> set xs \<Longrightarrow> endsValue rest \<Longrightarrow>
             tokenize (JSON_stringify x @ rest) = prependTokens (tokens x) (tokenize rest)"
  shows "tokenize (concat (map (\<lambda>x. '','' @ JSON_stringify x) xs) @ CHR '']'' # rest)
         = prependTokens (concat (map (\<lambda>x. TComma # tokens x) xs) @ [TRBracket]) (tokenize rest)"
  using assms
proof (induction xs)
  case Nil
  then show ?case by (simp add: tokenize_punctuation)
next
  case (Cons x xs)
  let ?tail = "concat (map (\<lambda>x. '','' @ JSON_stringify x) xs) @ CHR '']'' # rest"
  have e: "endsValue ?tail"
    by (cases xs) (simp_all add: endsValue_simps)
  have "tokenize (concat (map (\<lambda>x. '','' @ JSON_stringify x) (x # xs)) @ CHR '']'' # rest)
      = prependTokens [TComma] (tokenize (JSON_stringify x @ ?tail))"
    by (simp add: tokenize_punctuation)
  also have "\<dots> = prependTokens [TComma] (prependTokens (tokens x) (tokenize ?tail))"
    using Cons.prems [of x ?tail] e by simp
  also have "tokenize ?tail
      = prependTokens (concat (map (\<lambda>x. TComma # tokens x) xs) @ [TRBracket]) (tokenize rest)"
    by (rule Cons.IH) (simp add: Cons.prems)
  finally show ?case by (simp add: prependTokens_prepend)
qed

lemma tokenize_members:
  assumes "\<And>k v rest. (k, v) \<in> set ms \<Longrightarrow> endsValue rest \<Longrightarrow>
             tokenize (JSON_stringify v @ rest) = prependTokens (tokens v) (tokenize rest)"
  shows "tokenize (concat (map (\<lambda>(k, v). '','' @ QuoteJSONString k @ '':'' @ JSON_stringify v) ms)
                   @ CHR ''}'' # rest)
         = prependTokens (concat (map (\<lambda>(k, v). TComma # TString k # TColon # tokens v) ms)
                          @ [TRBrace]) (tokenize rest)"
  using assms
proof (induction ms)
  case Nil
  then show ?case by (simp add: tokenize_punctuation)
next
  case (Cons m ms)
  obtain k v where m: "m = (k, v)" by (cases m)
  let ?tail = "concat (map (\<lambda>(k, v). '','' @ QuoteJSONString k @ '':'' @ JSON_stringify v) ms)
               @ CHR ''}'' # rest"
  have e: "endsValue ?tail"
    by (cases ms) (auto simp: endsValue_simps)
  have "tokenize (concat (map (\<lambda>(k, v). '','' @ QuoteJSONString k @ '':'' @ JSON_stringify v) (m # ms))
                  @ CHR ''}'' # rest)
      = prependTokens [TComma, TString k, TColon] (tokenize (JSON_stringify v @ ?tail))"
    by (simp add: m tokenize_punctuation tokenize_string prependTokens_prepend)
  also have "\<dots> = prependTokens [TComma, TString k, TColon] (prependTokens (tokens v) (tokenize ?tail))"
    using Cons.prems [of k v ?tail] e m by simp
  also have "tokenize ?tail
      = prependTokens (concat (map (\<lambda>(k, v). TComma # TString k # TColon # tokens v) ms)
                       @ [TRBrace]) (tokenize rest)"
  proof (rule Cons.IH)
    fix k' v' rest'
    assume "(k', v') \<in> set ms" "endsValue rest'"
    then show "tokenize (JSON_stringify v' @ rest') = prependTokens (tokens v') (tokenize rest')"
      using Cons.prems [of k' v' rest'] by simp
  qed
  finally show ?case by (simp add: prependTokens_prepend m)
qed

lemma tokenize_stringify:
  "endsValue rest \<Longrightarrow>
   tokenize (JSON_stringify v @ rest) = prependTokens (tokens v) (tokenize rest)"
proof (induction v arbitrary: rest)
  case JNull
  then show ?case using tokenize_keywords(1) by simp
next
  case (JBool b)
  then show ?case using tokenize_keywords(2,3) by (cases b) simp_all
next
  case (JNumber n)
  then show ?case by (simp add: tokenize_number)
next
  case (JString s)
  then show ?case by (simp add: tokenize_string)
next
  case (JArray xs)
  show ?case
  proof (cases xs)
    case Nil
    then show ?thesis by (simp add: tokenize_punctuation prependTokens_prepend)
  next
    case (Cons x xs')
    let ?tail = "concat (map (\<lambda>x. '','' @ JSON_stringify x) xs') @ CHR '']'' # rest"
    have e: "endsValue ?tail"
      by (cases xs') (simp_all add: endsValue_simps)
    have "tokenize (JSON_stringify (JArray xs) @ rest)
        = prependTokens [TLBracket] (tokenize (JSON_stringify x @ ?tail))"
      by (simp add: Cons join_Cons tokenize_punctuation comp_def)
    also have "\<dots> = prependTokens [TLBracket] (prependTokens (tokens x) (tokenize ?tail))"
      using JArray.IH [of x ?tail] e Cons by simp
    also have "tokenize ?tail
        = prependTokens (concat (map (\<lambda>x. TComma # tokens x) xs') @ [TRBracket]) (tokenize rest)"
    proof (rule tokenize_elements)
      fix y rest'
      assume "y \<in> set xs'" "endsValue rest'"
      then show "tokenize (JSON_stringify y @ rest') = prependTokens (tokens y) (tokenize rest')"
        using JArray.IH [of y rest'] Cons by simp
    qed
    finally show ?thesis
      by (simp add: prependTokens_prepend Cons join_Cons comp_def)
  qed
next
  case (JObject ms)
  show ?case
  proof (cases ms)
    case Nil
    then show ?thesis by (simp add: tokenize_punctuation prependTokens_prepend)
  next
    case (Cons m ms')
    obtain k v where m: "m = (k, v)" by (cases m)
    let ?tail = "concat (map (\<lambda>(k, v). '','' @ QuoteJSONString k @ '':'' @ JSON_stringify v) ms')
                 @ CHR ''}'' # rest"
    have e: "endsValue ?tail"
      by (cases ms') (auto simp: endsValue_simps)
    have ih: "tokenize (JSON_stringify w @ r) = prependTokens (tokens w) (tokenize r)"
      if "(j, w) \<in> set ms" "endsValue r" for j w r
      using JObject.IH [of "(j, w)" w r] that by simp
    have "tokenize (JSON_stringify (JObject ms) @ rest)
        = prependTokens [TLBrace, TString k, TColon] (tokenize (JSON_stringify v @ ?tail))"
      by (simp add: Cons m join_Cons tokenize_punctuation tokenize_string prependTokens_prepend
          comp_def case_prod_unfold)
    also have "\<dots> = prependTokens [TLBrace, TString k, TColon]
                        (prependTokens (tokens v) (tokenize ?tail))"
      using ih [of k v ?tail] e Cons m by simp
    also have "tokenize ?tail
        = prependTokens (concat (map (\<lambda>(k, v). TComma # TString k # TColon # tokens v) ms')
                         @ [TRBrace]) (tokenize rest)"
    proof (rule tokenize_members)
      fix k' v' rest'
      assume "(k', v') \<in> set ms'" "endsValue rest'"
      then show "tokenize (JSON_stringify v' @ rest') = prependTokens (tokens v') (tokenize rest')"
        using ih [of k' v' rest'] Cons by simp
    qed
    finally show ?thesis
      by (simp add: prependTokens_prepend Cons m join_Cons comp_def case_prod_unfold)
  qed
qed

theorem JSON_parse_stringify: "JSON_parse (JSON_stringify v) = Inr v"
proof -
  have "tokenize (JSON_stringify v) = Inr (tokens v)"
    using tokenize_stringify [of "[]" v] by (simp add: endsValue_def prependTokens_def)
  then show ?thesis
    by (simp add: JSON_parse_def run_tokens)
qed

subsection \<open>Loading and saving\<close>

lemma JSON_parse_empty: "JSON_parse [] = Inl SyntaxError"
  by (simp add: JSON_parse_def)

lemma allSome_map_Some: "allSome (map Some xs) = Some xs"
  by (induction xs) auto

lemma Note_of_json_of_Note: "Note_of_json (json_of_Note n) = Some n"
  by (simp add: Note_of_json_def json_of_Note_def property_def asString_def asNumber_def
      asStrings_def comp_def allSome_map_Some)

lemma loadNotes_parsed_array:
  assumes "getItem ls LS_NOTES_KEY = Some raw" "JSON_parse raw = Inr (JArray xs)"
  shows "loadNotes ls = xs"
proof -
  have "raw \<noteq> []" using assms(2) JSON_parse_empty by auto
  with assms show ?thesis by (simp add: loadNotes_def loadNotes_try_def)
qed

lemma getItem_saveNotes:
  "getItem (saveNotes notes ls) LS_NOTES_KEY
   = Some (JSON_stringify (JArray (map json_of_Note notes)))"
  by (simp add: getItem_def saveNotes_def setItem_def)

lemma loadNotes_saveNotes: "loadNotes (saveNotes notes ls) = map json_of_Note notes"
  by (rule loadNotes_parsed_array [OF getItem_saveNotes JSON_parse_stringify])

text \<open>
  Claim C4. For every collection of notes and every storage, \<open>saveNotes\<close> followed by
  \<open>loadNotes\<close> returns the objects of exactly these notes, in order; read back field by
  field, each loaded object is the note that was saved.
\<close>

theorem saveNotes_loadNotes_roundtrip:
  "loadNotes (saveNotes notes ls) = map json_of_Note notes \<and>
   map Note_of_json (loadNotes (saveNotes notes ls)) = map Some notes"
  by (simp add: loadNotes_saveNotes Note_of_json_of_Note comp_def)

text \<open>
  Claim C3. \<open>loadNotes\<close> is total: the exception of \<^verbatim>\<open>JSON.parse\<close> ends in the \<^verbatim>\<open>catch\<close>.
  When the notes key is absent, or its text is rejected by \<^verbatim>\<open>JSON.parse\<close> with a
  \<^verbatim>\<open>SyntaxError\<close>, or its text parses to a value that is not an array, the result is the
  empty collection.
\<close>

theorem loadNotes_malformed_is_empty:
  assumes "getItem ls LS_NOTES_KEY = None \<or>
           (\<exists>raw. getItem ls LS_NOTES_KEY = Some raw \<and>
              (JSON_parse raw = Inl SyntaxError \<or>
               (\<exists>v. JSON_parse raw = Inr v \<and> \<not> isArray v)))"
  shows "loadNotes ls = []"
  using assms
proof (elim disjE exE conjE)
  assume "getItem ls LS_NOTES_KEY = None"
  then show ?thesis by (simp add: loadNotes_def loadNotes_try_def)
next
  fix raw
  assume "getItem ls LS_NOTES_KEY = Some raw" "JSON_parse raw = Inl SyntaxError"
  then show ?thesis by (simp add: loadNotes_def loadNotes_try_def)
next
  fix raw v
  assume "getItem ls LS_NOTES_KEY = Some raw" "JSON_parse raw = Inr v" "\<not> isArray v"
  then show ?thesis
    by (cases v) (simp_all add: loadNotes_def loadNotes_try_def isArray_def)
qed

text \<open>
  The three cases at concrete stores: no notes key, the text \<^verbatim>\<open>not json\<close> of the
  specification, and an object in place of the array.
\<close>

theorem loadNotes_malformed_is_empty_witness:
  \<open>loadNotes Map.empty = [] \<and>
   JSON_parse ''not json'' = Inl SyntaxError \<and>
   loadNotes [LS_NOTES_KEY \<mapsto> ''not json''] = [] \<and>
   JSON_parse ''{"notes":[]}'' = Inr (JObject [(''notes'', JArray [])]) \<and>
   loadNotes [LS_NOTES_KEY \<mapsto> ''{"notes":[]}''] = []\<close>
proof -
  have p1: "JSON_parse ''not json'' = Inl SyntaxError" by code_simp
  have p2: \<open>JSON_parse ''{"notes":[]}'' = Inr (JObject [(''notes'', JArray [])])\<close> by code_simp
  have "loadNotes Map.empty = []"
    by (rule loadNotes_malformed_is_empty) (simp add: getItem_def)
  moreover have "loadNotes [LS_NOTES_KEY \<mapsto> ''not json''] = []"
    by (rule loadNotes_malformed_is_empty) (simp add: getItem_def p1)
  moreover have \<open>loadNotes [LS_NOTES_KEY \<mapsto> ''{"notes":[]}''] = []\<close>
    by (rule loadNotes_malformed_is_empty) (simp add: getItem_def p2 isArray_def)
  ultimately show ?thesis using p1 p2 by simp
qed

text \<open>
  Claim C10. When the text under the notes key parses to an array, \<open>loadNotes\<close> returns
  the elements of that array as they are: nothing is checked or normalized.
\<close>

theorem loadNotes_returns_parsed_array_unchecked:
  assumes "getItem ls LS_NOTES_KEY = Some raw" "JSON_parse raw = Inr (JArray xs)"
  shows "loadNotes ls = xs"
  using assms by (rule loadNotes_parsed_array)

text \<open>
  A stored array whose two notes share their id, have a blank and an empty title, an
  empty and a blank tag, and \<open>createdAt\<close> after \<open>updatedAt\<close>: all of it is loaded.
\<close>

theorem loadNotes_returns_parsed_array_unchecked_witness:
  \<open>loadNotes [LS_NOTES_KEY \<mapsto>
      ''[{"id":"n1","title":"   ","content":"","tags":[""," "],"createdAt":9,"updatedAt":1},{"id":"n1","title":"","content":"x","tags":[],"createdAt":2,"updatedAt":2}]'']
    = [JObject [(''id'', JString ''n1''), (''title'', JString ''   ''), (''content'', JString []),
                (''tags'', JArray [JString [], JString '' '']),
                (''createdAt'', JNumber 9), (''updatedAt'', JNumber 1)],
       JObject [(''id'', JString ''n1''), (''title'', JString []), (''content'', JString ''x''),
                (''tags'', JArray []),
                (''createdAt'', JNumber 2), (''updatedAt'', JNumber 2)]]
   \<and> map Note_of_json (loadNotes [LS_NOTES_KEY \<mapsto>
      ''[{"id":"n1","title":"   ","content":"","tags":[""," "],"createdAt":9,"updatedAt":1},{"id":"n1","title":"","content":"x","tags":[],"createdAt":2,"updatedAt":2}]''])
    = [Some \<lparr>note_id = ''n1'', title = ''   '', content = [], tags = [[], '' ''],
              createdAt = 9, updatedAt = 1\<rparr>,
       Some \<lparr>note_id = ''n1'', title = [], content = ''x'', tags = [],
              createdAt = 2, updatedAt = 2\<rparr>]\<close>
proof -
  let ?raw = \<open>''[{"id":"n1","title":"   ","content":"","tags":[""," "],"createdAt":9,"updatedAt":1},{"id":"n1","title":"","content":"x","tags":[],"createdAt":2,"updatedAt":2}]''\<close>
  let ?xs = "[JObject [(''id'', JString ''n1''), (''title'', JString ''   ''), (''content'', JString []),
                (''tags'', JArray [JString [], JString '' '']),
                (''createdAt'', JNumber 9), (''updatedAt'', JNumber 1)],
       JObject [(''id'', JString ''n1''), (''title'', JString []), (''content'', JString ''x''),
                (''tags'', JArray []),
                (''createdAt'', JNumber 2), (''updatedAt'', JNumber 2)]]"
  have p: "JSON_parse ?raw = Inr (JArray ?xs)" by code_simp
  have g: "getItem [LS_NOTES_KEY \<mapsto> ?raw] LS_NOTES_KEY = Some ?raw" by (simp add: getItem_def)
  have l: "loadNotes [LS_NOTES_KEY \<mapsto> ?raw] = ?xs"
    by (rule loadNotes_returns_parsed_array_unchecked [OF g p])
  have n: "map Note_of_json ?xs =
     [Some \<lparr>note_id = ''n1'', title = ''   '', content = [], tags = [[], '' ''],
              createdAt = 9, updatedAt = 1\<rparr>,
       Some \<lparr>note_id = ''n1'', title = [], content = ''x'', tags = [],
              createdAt = 2, updatedAt = 2\<rparr>]"
    by code_simp
  show ?thesis unfolding l n by simp
qed

text \<open>
  What \<open>loadUser\<close> does in each case: \<^verbatim>\<open>null\<close> for a missing key and for a text that
  does not parse, and otherwise the parsed value, whatever it is.
\<close>

lemma loadUser_cases:
  "getItem ls LS_USER_KEY = None \<Longrightarrow> loadUser ls = JNull"
  "getItem ls LS_USER_KEY = Some raw \<Longrightarrow> JSON_parse raw = Inl SyntaxError \<Longrightarrow> loadUser ls = JNull"
  "getItem ls LS_USER_KEY = Some raw \<Longrightarrow> JSON_parse raw = Inr v \<Longrightarrow> loadUser ls = v"
  using JSON_parse_empty
  by (auto simp: loadUser_def loadUser_try_def)

text \<open>
  Claim C9 says that \<open>loadUser\<close> answers absent for stored data of the wrong shape. It
  does not: for the stored texts \<^verbatim>\<open>{}\<close> and \<^verbatim>\<open>42\<close>, neither an identity with an email,
  \<open>loadUser\<close> returns the parsed value and not \<^verbatim>\<open>null\<close>.
\<close>

theorem loadUser_wrong_shape_is_returned:
  \<open>loadUser [LS_USER_KEY \<mapsto> ''{}''] = JObject [] \<and>
   loadUser [LS_USER_KEY \<mapsto> ''{}''] \<noteq> JNull \<and>
   \<not> isIdentity (JObject []) \<and>
   loadUser [LS_USER_KEY \<mapsto> ''42''] = JNumber 42 \<and>
   loadUser [LS_USER_KEY \<mapsto> ''42''] \<noteq> JNull \<and>
   \<not> isIdentity (JNumber 42)\<close>
proof -
  have p1: "JSON_parse ''{}'' = Inr (JObject [])" by code_simp
  have p2: "JSON_parse ''42'' = Inr (JNumber 42)" by code_simp
  show ?thesis
    by (simp add: loadUser_def loadUser_try_def getItem_def p1 p2 isIdentity_def property_def
        asString_def)
qed

subsection \<open>Creating, updating and deleting\<close>

text \<open>
  Claim C2. For every form, clock and state, \<open>createNote\<close> puts one new note in front of
  the collection. Its title is the trimmed title of the form, or \<^verbatim>\<open>Untitled\<close> when that is
  empty; its content is the trimmed content; its tags are the pieces of the tag text
  between commas, trimmed, without the empty ones; \<open>createdAt\<close> and \<open>updatedAt\<close> are both
  \<open>now\<close>. The whole new collection is written under the notes key, and loading it gives
  the new collection back.
\<close>

theorem createNote_builds_prepends_persists:
  "notes_list (createNote now random36 clock st) =
     \<lparr>note_id = uid random36 clock,
      title = (if trim (form_title (form st)) = [] then ''Untitled''
               else trim (form_title (form st))),
      content = trim (form_content (form st)),
      tags = filter (\<lambda>t. t \<noteq> []) (map trim (split CHR '','' (form_tags (form st)))),
      createdAt = now,
      updatedAt = now\<rparr> # notes_list st
   \<and> getItem (localStorage (createNote now random36 clock st)) LS_NOTES_KEY =
       Some (JSON_stringify (JArray (map json_of_Note (notes_list (createNote now random36 clock st)))))
   \<and> map Note_of_json (loadNotes (localStorage (createNote now random36 clock st))) =
       map Some (notes_list (createNote now random36 clock st))"
  by (simp add: createNote_def Let_def getItem_saveNotes loadNotes_saveNotes
      Note_of_json_of_Note comp_def)

text \<open>
  A form with a blank title and a tag text with blank pieces, submitted over a collection
  of one note: the new collection and the text that is stored.
\<close>

theorem createNote_builds_prepends_persists_witness:
  \<open>notes_list (createNote 1700000000000 ''0.k3j2h1'' 1700000000001
      ((initialState Map.empty)
         \<lparr>notes_list := [budget],
          form := \<lparr>form_title = ''   '', form_content = '' hello '',
                    form_tags = '' a, ,b ,, ''\<rparr>\<rparr>)) =
     [\<lparr>note_id = ''k3j2h1loyw3v29'', title = ''Untitled'', content = ''hello'',
       tags = [''a'', ''b''], createdAt = 1700000000000, updatedAt = 1700000000000\<rparr>,
      budget]
   \<and> getItem (localStorage (createNote 1700000000000 ''0.k3j2h1'' 1700000000001
      ((initialState Map.empty)
         \<lparr>notes_list := [budget],
          form := \<lparr>form_title = ''   '', form_content = '' hello '',
                    form_tags = '' a, ,b ,, ''\<rparr>\<rparr>))) LS_NOTES_KEY =
     Some ''[{"id":"k3j2h1loyw3v29","title":"Untitled","content":"hello","tags":["a","b"],"createdAt":1700000000000,"updatedAt":1700000000000},{"id":"b2","title":"Budget","content":"","tags":["work"],"createdAt":200,"updatedAt":200}]''\<close>
proof -
  let ?st = "(initialState Map.empty)
         \<lparr>notes_list := [budget],
          form := \<lparr>form_title = ''   '', form_content = '' hello '',
                    form_tags = '' a, ,b ,, ''\<rparr>\<rparr>"
  let ?n = "\<lparr>note_id = ''k3j2h1loyw3v29'', title = ''Untitled'', content = ''hello'',
       tags = [''a'', ''b''], createdAt = 1700000000000, updatedAt = 1700000000000\<rparr>"
  have u: "uid ''0.k3j2h1'' 1700000000001 = ''k3j2h1loyw3v29''" by code_simp
  have t: "trim ''   '' = []" "trim '' hello '' = ''hello''" by code_simp+
  have g: "filter (\<lambda>t. t \<noteq> []) (map trim (split CHR '','' '' a, ,b ,, '')) = [''a'', ''b'']"
    by code_simp
  have j: \<open>JSON_stringify (JArray (map json_of_Note [?n, budget])) =
     ''[{"id":"k3j2h1loyw3v29","title":"Untitled","content":"hello","tags":["a","b"],"createdAt":1700000000000,"updatedAt":1700000000000},{"id":"b2","title":"Budget","content":"","tags":["work"],"createdAt":200,"updatedAt":200}]''\<close>
    by code_simp
  have f: "form_title (form ?st) = ''   ''" "form_content (form ?st) = '' hello ''"
    "form_tags (form ?st) = '' a, ,b ,, ''" "notes_list ?st = [budget]"
    by (simp_all add: initialState_def)
  have l: "notes_list (createNote 1700000000000 ''0.k3j2h1'' 1700000000001 ?st) = [?n, budget]"
    using createNote_builds_prepends_persists
      [of 1700000000000 "''0.k3j2h1''" 1700000000001 ?st, THEN conjunct1]
    unfolding f t g u by simp
  show ?thesis
    using createNote_builds_prepends_persists [of 1700000000000 "''0.k3j2h1''" 1700000000001 ?st]
    unfolding l j by simp
qed

text \<open>
  The new note satisfies what the specification's data model asks of a stored note: the
  title is not empty and has no white space at its ends, no tag is empty or has white
  space at its ends, and \<open>createdAt\<close> is not after \<open>updatedAt\<close>.
\<close>

lemma createNote_normalizes:
  "title (hd (notes_list (createNote now random36 clock st))) \<noteq> [] \<and>
   trim (title (hd (notes_list (createNote now random36 clock st)))) =
     title (hd (notes_list (createNote now random36 clock st))) \<and>
   (\<forall>t \<in> set (tags (hd (notes_list (createNote now random36 clock st)))). t \<noteq> [] \<and> trim t = t) \<and>
   createdAt (hd (notes_list (createNote now random36 clock st))) \<le>
     updatedAt (hd (notes_list (createNote now random36 clock st)))"
  by (auto simp: createNote_def Let_def trim_idem trim_Untitled)

lemma editingTokyo_simps:
  "selectedNote (editingTokyo notes) = Some tokyo"
  "notes_list (editingTokyo notes) = notes"
  "form_title (form (editingTokyo notes)) = ''  Kyoto  ''"
  "form_content (form (editingTokyo notes)) = '' Book hotel''"
  "form_tags (form (editingTokyo notes)) = ''travel, ,kansai ,''"
  by (simp_all add: editingTokyo_def initialState_def)

lemma editingTokyo_normalized:
  "trim ''  Kyoto  '' = ''Kyoto''"
  "trim '' Book hotel'' = ''Book hotel''"
  "filter (\<lambda>t. t \<noteq> []) (map trim (split CHR '','' ''travel, ,kansai ,'')) = [''travel'', ''kansai'']"
  by code_simp+

lemma editingTokyo_created:
  "hd (notes_list (createNote now random36 clock (editingTokyo notes))) =
     \<lparr>note_id = uid random36 clock, title = ''Kyoto'', content = ''Book hotel'',
      tags = [''travel'', ''kansai''], createdAt = now, updatedAt = now\<rparr>"
  unfolding createNote_def Let_def editingTokyo_simps editingTokyo_normalized by simp

text \<open>
  Claim C5. When a note is selected, \<open>updateNote\<close> keeps the length of the collection,
  and at every position: a note with the selected id keeps its id and \<open>createdAt\<close>, gets
  \<open>updatedAt = now\<close>, and gets the title, content and tags that \<open>createNote\<close> builds from
  the same form; a note with another id is unchanged.
\<close>

theorem updateNote_replaces_matching_notes:
  assumes "selectedNote st = Some sel"
  shows "length (notes_list (updateNote now st)) = length (notes_list st) \<and>
         (\<forall>i < length (notes_list st).
            let old = notes_list st ! i;
                new = notes_list (updateNote now st) ! i;
                made = hd (notes_list (createNote now random36 clock st))
            in if note_id old = note_id sel
               then note_id new = note_id old \<and> createdAt new = createdAt old \<and>
                    updatedAt new = now \<and> title new = title made \<and>
                    content new = content made \<and> tags new = tags made
               else new = old)"
  using assms by (simp add: updateNote_def createNote_def Let_def)

text \<open>The edit of \<open>tokyo\<close> in a collection of two notes, at time 500.\<close>

theorem updateNote_replaces_matching_notes_witness:
  "selectedNote (editingTokyo [tokyo, budget]) = Some tokyo \<and>
   length (notes_list (updateNote 500 (editingTokyo [tokyo, budget]))) = 2 \<and>
   note_id (notes_list (updateNote 500 (editingTokyo [tokyo, budget])) ! 0) = ''a1'' \<and>
   title (notes_list (updateNote 500 (editingTokyo [tokyo, budget])) ! 0) = ''Kyoto'' \<and>
   content (notes_list (updateNote 500 (editingTokyo [tokyo, budget])) ! 0) = ''Book hotel'' \<and>
   tags (notes_list (updateNote 500 (editingTokyo [tokyo, budget])) ! 0) = [''travel'', ''kansai''] \<and>
   createdAt (notes_list (updateNote 500 (editingTokyo [tokyo, budget])) ! 0) = 100 \<and>
   updatedAt (notes_list (updateNote 500 (editingTokyo [tokyo, budget])) ! 0) = 500 \<and>
   notes_list (updateNote 500 (editingTokyo [tokyo, budget])) ! 1 = budget"
proof -
  let ?st = "editingTokyo [tokyo, budget]"
  note t = updateNote_replaces_matching_notes
    [OF editingTokyo_simps(1), of 500 "[tokyo, budget]" "[]" 0]
  have ids: "note_id tokyo = ''a1''" "note_id budget = ''b2''" "createdAt tokyo = 100"
    by (simp_all add: tokyo_def budget_def)
  from t have len: "length (notes_list (updateNote 500 ?st)) = 2"
    by (simp add: editingTokyo_simps)
  from t have el: "\<forall>i<2. let old = [tokyo, budget] ! i;
                new = notes_list (updateNote 500 ?st) ! i;
                made = hd (notes_list (createNote 500 [] 0 ?st))
            in if note_id old = note_id tokyo
               then note_id new = note_id old \<and> createdAt new = createdAt old \<and>
                    updatedAt new = 500 \<and> title new = title made \<and>
                    content new = content made \<and> tags new = tags made
               else new = old"
    by (simp add: editingTokyo_simps)
  have e0: "note_id (notes_list (updateNote 500 ?st) ! 0) = ''a1'' \<and>
            title (notes_list (updateNote 500 ?st) ! 0) = ''Kyoto'' \<and>
            content (notes_list (updateNote 500 ?st) ! 0) = ''Book hotel'' \<and>
            tags (notes_list (updateNote 500 ?st) ! 0) = [''travel'', ''kansai''] \<and>
            createdAt (notes_list (updateNote 500 ?st) ! 0) = 100 \<and>
            updatedAt (notes_list (updateNote 500 ?st) ! 0) = 500"
    using el [rule_format, of 0] by (simp add: Let_def editingTokyo_created ids)
  have e1: "notes_list (updateNote 500 ?st) ! 1 = budget"
    using el [rule_format, of 1] by (simp add: Let_def ids)
  show ?thesis
    using len e0 e1 by (simp add: editingTokyo_simps)
qed

text \<open>
  Claim C6. When the selected id is the id of no note in the collection, \<open>updateNote\<close>
  and \<open>deleteNote\<close> both leave the collection as it is. Neither function has a failing
  branch.
\<close>

theorem update_delete_unknown_id_noop:
  assumes "selectedNote st = Some sel"
      and "note_id sel \<notin> note_id ` set (notes_list st)"
  shows "notes_list (updateNote now st) = notes_list st \<and>
         notes_list (deleteNote st) = notes_list st"
proof -
  have other: "note_id n \<noteq> note_id sel" if "n \<in> set (notes_list st)" for n
    using assms(2) that by (metis imageI)
  have "map (\<lambda>n. if note_id n = note_id sel then f n else n) (notes_list st) = notes_list st" for f
    by (rule map_idI) (simp add: other)
  moreover have "filter (\<lambda>n. note_id n \<noteq> note_id sel) (notes_list st) = notes_list st"
    unfolding filter_id_conv by (simp add: other)
  ultimately show ?thesis
    using assms(1) by (simp add: updateNote_def deleteNote_def Let_def)
qed

text \<open>The note \<open>tokyo\<close> selected while the collection holds \<open>budget\<close> only.\<close>

theorem update_delete_unknown_id_noop_witness:
  "selectedNote (editingTokyo [budget]) = Some tokyo \<and>
   note_id tokyo \<notin> note_id ` set (notes_list (editingTokyo [budget])) \<and>
   notes_list (updateNote 500 (editingTokyo [budget])) = [budget] \<and>
   notes_list (deleteNote (editingTokyo [budget])) = [budget]"
proof -
  have n: "note_id tokyo \<notin> note_id ` set (notes_list (editingTokyo [budget]))"
    by (simp add: editingTokyo_simps tokyo_def budget_def)
  show ?thesis
    using update_delete_unknown_id_noop [OF editingTokyo_simps(1) n, of 500] n
    by (simp add: editingTokyo_simps)
qed

text \<open>
  Claim C7 as stated fails where two notes share an id, which \<open>loadNotes\<close> lets in
  and \<open>createNote\<close> does not exclude: deleting by that id removes both, so the size
  drops by two.
\<close>

theorem deleteNote_duplicate_id_counterexample:
  "selectedNote (editingTokyo [tokyo, budget, tokyo\<lparr>updatedAt := 300\<rparr>]) = Some tokyo \<and>
   note_id tokyo \<in> note_id ` set (notes_list (editingTokyo [tokyo, budget, tokyo\<lparr>updatedAt := 300\<rparr>])) \<and>
   length (notes_list (editingTokyo [tokyo, budget, tokyo\<lparr>updatedAt := 300\<rparr>])) = 3 \<and>
   notes_list (deleteNote (editingTokyo [tokyo, budget, tokyo\<lparr>updatedAt := 300\<rparr>])) = [budget] \<and>
   length (notes_list (deleteNote (editingTokyo [tokyo, budget, tokyo\<lparr>updatedAt := 300\<rparr>]))) + 1
     \<noteq> length (notes_list (editingTokyo [tokyo, budget, tokyo\<lparr>updatedAt := 300\<rparr>]))"
  by (simp add: deleteNote_def Let_def editingTokyo_simps tokyo_def budget_def)

text \<open>
  Claim C7, amended. When a note is selected, \<open>deleteNote\<close> removes every note with the
  selected id and no other note, and keeps the order of the rest; the size drops by the
  number of notes with that id, which is exactly one when the ids of the collection are
  distinct and the id is present.
\<close>

theorem deleteNote_removes_notes_with_id:
  assumes "selectedNote st = Some sel"
  shows "set (notes_list (deleteNote st)) = {n \<in> set (notes_list st). note_id n \<noteq> note_id sel} \<and>
         subseq (notes_list (deleteNote st)) (notes_list st) \<and>
         length (notes_list (deleteNote st)) +
           length (filter (\<lambda>n. note_id n = note_id sel) (notes_list st)) = length (notes_list st) \<and>
         (distinct (map note_id (notes_list st)) \<and> note_id sel \<in> note_id ` set (notes_list st)
            \<longrightarrow> length (notes_list (deleteNote st)) + 1 = length (notes_list st))"
proof -
  have l: "notes_list (deleteNote st) = filter (\<lambda>n. note_id n \<noteq> note_id sel) (notes_list st)"
    using assms by (simp add: deleteNote_def Let_def)
  have c: "length (filter (\<lambda>n. note_id n \<noteq> note_id sel) xs)
            + length (filter (\<lambda>n. note_id n = note_id sel) xs) = length xs" for xs :: "Note list"
    by (induction xs) auto
  have u: "distinct (map note_id xs) \<Longrightarrow> note_id sel \<in> note_id ` set xs \<Longrightarrow>
           length (filter (\<lambda>n. note_id n = note_id sel) xs) = 1" for xs :: "Note list"
  proof (induction xs)
    case Nil
    then show ?case by simp
  next
    case (Cons x xs)
    show ?case
    proof (cases "note_id x = note_id sel")
      case True
      with Cons.prems(1) have "note_id sel \<notin> note_id ` set xs" by auto
      then have "\<forall>n \<in> set xs. note_id n \<noteq> note_id sel"
        by (metis imageI)
      then have "filter (\<lambda>n. note_id n = note_id sel) xs = []"
        by (simp add: filter_empty_conv)
      with True show ?thesis by simp
    next
      case False
      with Cons show ?thesis by auto
    qed
  qed
  show ?thesis
    unfolding l using c [of "notes_list st"] u [of "notes_list st"] by auto
qed

text \<open>The deletion of \<open>tokyo\<close> from a collection of two notes with distinct ids.\<close>

theorem deleteNote_removes_notes_with_id_witness:
  "selectedNote (editingTokyo [tokyo, budget]) = Some tokyo \<and>
   distinct (map note_id (notes_list (editingTokyo [tokyo, budget]))) \<and>
   note_id tokyo \<in> note_id ` set (notes_list (editingTokyo [tokyo, budget])) \<and>
   set (notes_list (deleteNote (editingTokyo [tokyo, budget]))) = {budget} \<and>
   length (notes_list (deleteNote (editingTokyo [tokyo, budget]))) + 1 =
     length (notes_list (editingTokyo [tokyo, budget]))"
proof -
  let ?st = "editingTokyo [tokyo, budget]"
  have d: "distinct (map note_id (notes_list ?st))"
    and m: "note_id tokyo \<in> note_id ` set (notes_list ?st)"
    and ne: "note_id budget \<noteq> note_id tokyo"
    by (simp_all add: editingTokyo_simps tokyo_def budget_def)
  note t = deleteNote_removes_notes_with_id [OF editingTokyo_simps(1), of "[tokyo, budget]"]
  from t have "set (notes_list (deleteNote ?st)) = {n \<in> set (notes_list ?st). note_id n \<noteq> note_id tokyo}"
    by blast
  then have s: "set (notes_list (deleteNote ?st)) = {budget}"
    using ne by (auto simp: editingTokyo_simps)
  from t d m have "length (notes_list (deleteNote ?st)) + 1 = length (notes_list ?st)"
    by blast
  with s d m show ?thesis by (simp add: editingTokyo_simps)
qed

text \<open>
  Claim C8 as stated fails: \<open>createNote\<close> never looks at the ids in the collection. Two
  submissions in the same millisecond for which \<^verbatim>\<open>Math.random()\<close> gives the same value get
  the same id.
\<close>

theorem createNote_duplicate_id_counterexample:
  "note_id (hd (notes_list
      (createNote 1700000000000 ''0.k3j2h1'' 1700000000000
        (createNote 1700000000000 ''0.k3j2h1'' 1700000000000 (initialState Map.empty)))))
     \<in> note_id ` set (notes_list
          (createNote 1700000000000 ''0.k3j2h1'' 1700000000000 (initialState Map.empty))) \<and>
   \<not> distinct (map note_id (notes_list
      (createNote 1700000000000 ''0.k3j2h1'' 1700000000000
        (createNote 1700000000000 ''0.k3j2h1'' 1700000000000 (initialState Map.empty)))))"
  by (simp add: createNote_def Let_def initialState_def)

text \<open>
  Claim C8, amended. The id of the new note is \<open>uid\<close> of the random string and the clock
  alone. After \<open>createNote\<close> the ids of the collection are distinct exactly when they were
  distinct before and that id is the id of no note already there.
\<close>

theorem createNote_ids_distinct_iff:
  "note_id (hd (notes_list (createNote now random36 clock st))) = uid random36 clock \<and>
   (distinct (map note_id (notes_list (createNote now random36 clock st))) \<longleftrightarrow>
      distinct (map note_id (notes_list st)) \<and>
      uid random36 clock \<notin> note_id ` set (notes_list st))"
  by (auto simp: createNote_def Let_def)

text \<open>A note created over the two example notes gets an id that neither of them has.\<close>

theorem createNote_ids_distinct_iff_witness:
  "uid ''0.k3j2h1'' 1700000000001 = ''k3j2h1loyw3v29'' \<and>
   distinct (map note_id (notes_list
      (createNote 1700000000000 ''0.k3j2h1'' 1700000000001
         ((initialState Map.empty)\<lparr>notes_list := [tokyo, budget]\<rparr>))))"
proof -
  have u: "uid ''0.k3j2h1'' 1700000000001 = ''k3j2h1loyw3v29''" by code_simp
  show ?thesis
    using createNote_ids_distinct_iff
      [of 1700000000000 "''0.k3j2h1''" 1700000000001
          "(initialState Map.empty)\<lparr>notes_list := [tokyo, budget]\<rparr>"]
    by (simp add: u initialState_def tokyo_def budget_def)
qed

end
